theory Spec2Isabelle
  imports Main
begin

section \<open>Challenge 4: the sliding-window counters of the throttle and echo services\<close>

text \<open>
  The throttle service (\<^verbatim>\<open>challenge4/throttle-service/src/index.ts\<close>) holds a
  \<^verbatim>\<open>Throttler\<close>; the echo service holds a \<^verbatim>\<open>RateLimiter\<close>. Both keep the
  array \<^verbatim>\<open>calls\<close> of admission timestamps (milliseconds, as \<^verbatim>\<open>Date.now()\<close>
  returns them, modelled as \<open>int\<close>) and the limit \<^verbatim>\<open>maxCallsPerMinute\<close>; only the
  \<^verbatim>\<open>Throttler\<close> counts its rejections, in \<^verbatim>\<open>throttledCount\<close>.

  Every method reads the clock itself; in the model the value that \<^verbatim>\<open>Date.now()\<close>
  returned is the first argument, and the mutated object is returned with the result.
  The throttle service is modelled in its revision with the promise chain in
  \<^verbatim>\<open>canForward\<close> and the pooled HTTP agent; the body of \<^verbatim>\<open>canForward\<close> is the same in
  the earlier, synchronous revision.
\<close>

subsection \<open>Throttler\<close>

record Throttler =
  calls :: "int list"
  maxCallsPerMinute :: nat
  throttledCount :: nat

text \<open>The field initialisers and the constructor: limit 4096, no call, nothing throttled.\<close>

definition new_Throttler :: Throttler where
  "new_Throttler = \<lparr>calls = [], maxCallsPerMinute = 4096, throttledCount = 0\<rparr>"

text \<open>
  \<^verbatim>\<open>canForward\<close>: the function chained on \<^verbatim>\<open>this.processing\<close>. It contains no
  \<^verbatim>\<open>await\<close>, so it runs from its first to its last statement without interruption, and
  the chain runs one such function after the other; the model is that function.
\<close>

definition canForward :: "int \<Rightarrow> Throttler \<Rightarrow> bool \<times> Throttler" where
  "canForward now s =
     (let oneMinuteAgo = now - 60000;
          s1 = s\<lparr>calls := filter (\<lambda>timestamp. timestamp > oneMinuteAgo) (calls s)\<rparr>
      in if length (calls s1) < maxCallsPerMinute s1
         then (True, s1\<lparr>calls := calls s1 @ [now]\<rparr>)
         else (False, s1\<lparr>throttledCount := throttledCount s1 + 1\<rparr>))"

definition getCurrentCount :: "int \<Rightarrow> Throttler \<Rightarrow> nat \<times> Throttler" where
  "getCurrentCount now s =
     (let oneMinuteAgo = now - 60000;
          s1 = s\<lparr>calls := filter (\<lambda>timestamp. timestamp > oneMinuteAgo) (calls s)\<rparr>
      in (length (calls s1), s1))"

definition getThrottledCount :: "Throttler \<Rightarrow> nat" where
  "getThrottledCount s = throttledCount s"

text \<open>\<^verbatim>\<open>Math.max(0, this.maxCallsPerMinute - this.getCurrentCount())\<close>, the difference
  taken in \<open>int\<close> so that the clamp at 0 is the source's and not that of \<open>nat\<close>.\<close>

definition getRemainingCapacity :: "int \<Rightarrow> Throttler \<Rightarrow> int \<times> Throttler" where
  "getRemainingCapacity now s =
     (let (n, s1) = getCurrentCount now s
      in (max 0 (int (maxCallsPerMinute s1) - int n), s1))"

subsection \<open>RateLimiter\<close>

record RateLimiter =
  rl_calls :: "int list"
  rl_maxCallsPerMinute :: nat

definition new_RateLimiter :: RateLimiter where
  "new_RateLimiter = \<lparr>rl_calls = [], rl_maxCallsPerMinute = 512\<rparr>"

definition isAllowed :: "int \<Rightarrow> RateLimiter \<Rightarrow> bool \<times> RateLimiter" where
  "isAllowed now r =
     (let oneMinuteAgo = now - 60000;
          r1 = r\<lparr>rl_calls := filter (\<lambda>timestamp. timestamp > oneMinuteAgo) (rl_calls r)\<rparr>
      in if length (rl_calls r1) < rl_maxCallsPerMinute r1
         then (True, r1\<lparr>rl_calls := rl_calls r1 @ [now]\<rparr>)
         else (False, r1))"

definition rl_getCurrentCount :: "int \<Rightarrow> RateLimiter \<Rightarrow> nat \<times> RateLimiter" where
  "rl_getCurrentCount now r =
     (let oneMinuteAgo = now - 60000;
          r1 = r\<lparr>rl_calls := filter (\<lambda>timestamp. timestamp > oneMinuteAgo) (rl_calls r)\<rparr>
      in (length (rl_calls r1), r1))"

definition rl_getRemainingCapacity :: "int \<Rightarrow> RateLimiter \<Rightarrow> int \<times> RateLimiter" where
  "rl_getRemainingCapacity now r =
     (let (n, r1) = rl_getCurrentCount now r
      in (max 0 (int (rl_maxCallsPerMinute r1) - int n), r1))"

subsection \<open>Sequences of calls\<close>

text \<open>
  A sequence of \<^verbatim>\<open>canForward\<close> calls, one per clock value of the list, on the same
  object: the list of results and the object after the last call.
\<close>

fun canForward_all :: "int list \<Rightarrow> Throttler \<Rightarrow> bool list \<times> Throttler" where
  "canForward_all [] s = ([], s)"
| "canForward_all (now # ts) s =
     (let (ok, s1) = canForward now s;
          (oks, s2) = canForward_all ts s1
      in (ok # oks, s2))"

fun isAllowed_all :: "int list \<Rightarrow> RateLimiter \<Rightarrow> bool list \<times> RateLimiter" where
  "isAllowed_all [] r = ([], r)"
| "isAllowed_all (now # ts) r =
     (let (ok, r1) = isAllowed now r;
          (oks, r2) = isAllowed_all ts r1
      in (ok # oks, r2))"

text \<open>The clock values of the calls that were admitted, in call order.\<close>

definition admitted :: "int list \<Rightarrow> bool list \<Rightarrow> int list" where
  "admitted ts oks = map fst (filter snd (zip ts oks))"

text \<open>
  A \<^verbatim>\<open>RateLimiter\<close> read as a \<^verbatim>\<open>Throttler\<close> whose counter shows \<open>n\<close>: the two
  classes prune and admit by the same statements, so results on \<open>canForward\<close> carry
  over to \<open>isAllowed\<close> through this reading.
\<close>

definition as_Throttler :: "RateLimiter \<Rightarrow> nat \<Rightarrow> Throttler" where
  "as_Throttler r n =
     \<lparr>calls = rl_calls r, maxCallsPerMinute = rl_maxCallsPerMinute r, throttledCount = n\<rparr>"

section \<open>The HTTP handlers\<close>

text \<open>
  Request and response bodies are JSON values. A log line is modelled by the leading
  words of its template literal and the values interpolated into it, in order.
\<close>

datatype json =
  JNull | JBool bool | JNum int | JStr string | JArr "json list" | JObj "(string \<times> json) list"

record http_response =
  status :: nat
  body :: json

datatype log_line = Log string "json list"

text \<open>Property access on a parsed body, and JavaScript truthiness for \<^verbatim>\<open>||\<close>.\<close>

fun get_prop :: "json \<Rightarrow> string \<Rightarrow> json option" where
  "get_prop (JObj kvs) k = map_of kvs k"
| "get_prop _ k = None"


subsection \<open>Echo service: \<^verbatim>\<open>POST /echo\<close> and \<^verbatim>\<open>GET /health\<close>\<close>

text \<open>
  The handler is synchronous. It reads the clock three times: in
  \<^verbatim>\<open>getCurrentCount\<close>, in the \<^verbatim>\<open>getCurrentCount\<close> that
  \<^verbatim>\<open>getRemainingCapacity\<close> calls, and in \<^verbatim>\<open>isAllowed\<close>.
\<close>

definition echo ::
  "int \<Rightarrow> int \<Rightarrow> int \<Rightarrow> json \<Rightarrow> RateLimiter \<Rightarrow> (http_response \<times> log_line list) \<times> RateLimiter" where
  "echo t1 t2 t3 receivedData r =
     (let (currentCount, r1) = rl_getCurrentCount t1 r;
          (remainingCapacity, r2) = rl_getRemainingCapacity t2 r1;
          received = Log ''Received'' [receivedData, JNum (int currentCount), JNum remainingCapacity];
          (allowed, r3) = isAllowed t3 r2
      in if \<not> allowed
         then ((\<lparr>status = 429, body = JObj [(''message'', JStr ''Exceeding Limit'')]\<rparr>,
                [received, Log ''Rate limit exceeded! Responding with'' [JStr ''Exceeding Limit'']]), r3)
         else ((\<lparr>status = 200, body = receivedData\<rparr>,
                [received, Log ''Echoing back'' [receivedData]]), r3))"

definition echo_health :: "int \<Rightarrow> int \<Rightarrow> RateLimiter \<Rightarrow> http_response \<times> RateLimiter" where
  "echo_health t1 t2 r =
     (let (currentCalls, r1) = rl_getCurrentCount t1 r;
          (remainingCapacity, r2) = rl_getRemainingCapacity t2 r1
      in (\<lparr>status = 200,
           body = JObj [(''status'', JStr ''ok''),
                        (''service'', JStr ''Echo Service''),
                        (''port'', JNum 4003),
                        (''currentCalls'', JNum (int currentCalls)),
                        (''remainingCapacity'', JNum remainingCapacity),
                        (''maxCallsPerMinute'', JNum 512)]\<rparr>, r2))"

subsection \<open>Throttle service: \<^verbatim>\<open>POST /forward\<close> and \<^verbatim>\<open>GET /health\<close>\<close>








definition throttle_health :: "int \<Rightarrow> int \<Rightarrow> Throttler \<Rightarrow> http_response \<times> Throttler" where
  "throttle_health t1 t2 s =
     (let (currentCalls, s1) = getCurrentCount t1 s;
          (remainingCapacity, s2) = getRemainingCapacity t2 s1
      in (\<lparr>status = 200,
           body = JObj [(''status'', JStr ''ok''),
                        (''service'', JStr ''Throttle Service''),
                        (''port'', JNum 4002),
                        (''currentCalls'', JNum (int currentCalls)),
                        (''remainingCapacity'', JNum remainingCapacity),
                        (''throttledCount'', JNum (int (getThrottledCount s2))),
                        (''maxCallsPerMinute'', JNum 4096)]\<rparr>, s2))"

section \<open>Caller service\<close>

text \<open>
  \<^verbatim>\<open>makeCall\<close> posts one request and logs the response or, in its \<^verbatim>\<open>catch\<close> block,
  the error; it never throws. Whether the post of a call fails is the input \<open>fails\<close>
  of the model; what remains of a call is its ID and which of the two was logged.
\<close>

record call_record =
  call_id :: int
  call_failed :: bool

definition makeCall :: "(int \<Rightarrow> bool) \<Rightarrow> int \<Rightarrow> call_record" where
  "makeCall fails callId = \<lparr>call_id = callId, call_failed = fails callId\<rparr>"

text \<open>The \<^verbatim>\<open>for\<close> loop of \<^verbatim>\<open>makeCalls\<close>, pushing one call per round.\<close>

function makeCalls_loop ::
  "(int \<Rightarrow> bool) \<Rightarrow> nat \<Rightarrow> nat \<Rightarrow> int \<Rightarrow> call_record list \<Rightarrow> call_record list" where
  "makeCalls_loop fails i count startId callPromises =
     (if i < count
      then makeCalls_loop fails (i + 1) count startId
             (callPromises @ [makeCall fails (startId + int i)])
      else callPromises)"
  by pat_completeness auto
termination
  by (relation "measure (\<lambda>(fails, i, count, startId, callPromises). count - i)") auto

definition makeCalls :: "(int \<Rightarrow> bool) \<Rightarrow> nat \<Rightarrow> int \<Rightarrow> call_record list" where
  "makeCalls fails count startId = makeCalls_loop fails 0 count startId []"

text \<open>
  \<^verbatim>\<open>main\<close>: four rounds; \<open>d1\<close>, \<open>d2\<close>, \<open>d3\<close> are the measured durations of the first
  three. The result holds the calls of each round, the waits between rounds and the
  total that the last log line prints, \<^verbatim>\<open>callId - 1\<close>.
\<close>

record driver_run =
  rounds :: "call_record list list"
  waits :: "int list"
  total :: int

definition main :: "(int \<Rightarrow> bool) \<Rightarrow> int \<Rightarrow> int \<Rightarrow> int \<Rightarrow> driver_run" where
  "main fails d1 d2 d3 =
     (let callId = 1;
          minute1 = makeCalls fails 16 callId;
          callId = callId + 16;
          minute1Wait = max 0 (60000 - d1);
          minute2 = makeCalls fails 256 callId;
          callId = callId + 256;
          minute2Wait = max 0 (60000 - d2);
          minute3 = makeCalls fails 4096 callId;
          callId = callId + 4096;
          minute3Wait = max 0 (60000 - d3);
          minute4 = makeCalls fails 65536 callId;
          callId = callId + 65536
      in \<lparr>rounds = [minute1, minute2, minute3, minute4],
          waits = [minute1Wait, minute2Wait, minute3Wait],
          total = callId - 1\<rparr>)"

section \<open>Properties of the counters\<close>

subsection \<open>Auxiliary facts\<close>

lemma canForward_max [simp]:
  "maxCallsPerMinute (snd (canForward now s)) = maxCallsPerMinute s"
  by (simp add: canForward_def Let_def)

lemma canForward_bounded:
  assumes "length (calls s) \<le> maxCallsPerMinute s"
  shows "length (calls (snd (canForward now s))) \<le> maxCallsPerMinute s"
proof -
  have "length (filter (\<lambda>timestamp. timestamp > now - 60000) (calls s)) \<le> length (calls s)"
    by (rule length_filter_le)
  with assms
  have "length (filter (\<lambda>timestamp. timestamp > now - 60000) (calls s)) \<le> maxCallsPerMinute s"
    by (rule le_trans [rotated])
  then show ?thesis by (simp add: canForward_def Let_def)
qed

lemma canForward_all_max [simp]:
  "maxCallsPerMinute (snd (canForward_all ts s)) = maxCallsPerMinute s"
proof (induction ts arbitrary: s)
  case Nil
  show ?case by simp
next
  case (Cons now ts)
  have "maxCallsPerMinute (snd (canForward_all ts (snd (canForward now s)))) = maxCallsPerMinute s"
    by (simp add: Cons.IH)
  then show ?case by (simp add: split_beta)
qed

lemma canForward_all_bounded:
  "length (calls s) \<le> maxCallsPerMinute s \<Longrightarrow>
   length (calls (snd (canForward_all ts s))) \<le> maxCallsPerMinute s"
proof (induction ts arbitrary: s)
  case Nil
  then show ?case by simp
next
  case (Cons now ts)
  from Cons.prems
  have "length (calls (snd (canForward now s))) \<le> maxCallsPerMinute (snd (canForward now s))"
    by (simp add: canForward_bounded)
  from Cons.IH [OF this] show ?case by (simp add: split_beta)
qed

lemma canForward_all_length [simp]: "length (fst (canForward_all ts s)) = length ts"
  by (induction ts arbitrary: s) (simp_all add: split_beta)

lemma isAllowed_canForward:
  "fst (isAllowed now r) = fst (canForward now (as_Throttler r n)) \<and>
   rl_calls (snd (isAllowed now r)) = calls (snd (canForward now (as_Throttler r n))) \<and>
   rl_maxCallsPerMinute (snd (isAllowed now r)) = rl_maxCallsPerMinute r"
  by (simp add: isAllowed_def canForward_def as_Throttler_def Let_def)

lemma isAllowed_all_canForward_all:
  "fst (isAllowed_all ts r) = fst (canForward_all ts (as_Throttler r n)) \<and>
   rl_calls (snd (isAllowed_all ts r)) = calls (snd (canForward_all ts (as_Throttler r n))) \<and>
   rl_maxCallsPerMinute (snd (isAllowed_all ts r)) = rl_maxCallsPerMinute r"
proof (induction ts arbitrary: r n)
  case Nil
  show ?case by (simp add: as_Throttler_def)
next
  case (Cons now ts)
  let ?r1 = "snd (isAllowed now r)"
  let ?s1 = "snd (canForward now (as_Throttler r n))"
  have "\<exists>m. ?s1 = as_Throttler ?r1 m"
    by (simp add: isAllowed_def canForward_def as_Throttler_def Let_def)
  then obtain m where m: "?s1 = as_Throttler ?r1 m" ..
  from Cons.IH [of ?r1 m] m isAllowed_canForward [of now r n]
  show ?case by (simp add: split_beta)
qed

lemma filter_id_window:
  "\<forall>t\<in>set xs. now - t < 60000 \<Longrightarrow> filter (\<lambda>timestamp. timestamp > now - 60000) xs = xs"
  for now :: int
  by (induction xs) auto

lemma canForward_admit:
  "\<forall>t\<in>set (calls s). now - t < 60000 \<Longrightarrow> length (calls s) < maxCallsPerMinute s \<Longrightarrow>
   canForward now s = (True, s\<lparr>calls := calls s @ [now]\<rparr>)"
  by (simp add: canForward_def Let_def filter_id_window)

lemma canForward_reject:
  "\<forall>t\<in>set (calls s). now - t < 60000 \<Longrightarrow> \<not> length (calls s) < maxCallsPerMinute s \<Longrightarrow>
   canForward now s = (False, s\<lparr>throttledCount := throttledCount s + 1\<rparr>)"
  by (simp add: canForward_def Let_def filter_id_window)

text \<open>
  A burst: no clock value of the burst is a minute or more after a retained timestamp or
  after another value of the burst, so nothing is pruned while it lasts. The free slots
  go to the first calls, and every later call is counted as throttled.
\<close>

lemma canForward_all_burst:
  assumes "\<forall>t\<in>set (calls s) \<union> set ts. \<forall>t'\<in>set ts. t' - t < 60000"
  shows "canForward_all ts s =
    (replicate (min (length ts) (maxCallsPerMinute s - length (calls s))) True @
     replicate (length ts - (maxCallsPerMinute s - length (calls s))) False,
     s\<lparr>calls := calls s @ take (maxCallsPerMinute s - length (calls s)) ts,
       throttledCount := throttledCount s + (length ts - (maxCallsPerMinute s - length (calls s)))\<rparr>)"
  using assms
proof (induction ts arbitrary: s)
  case Nil
  show ?case by simp
next
  case (Cons now ts)
  from Cons.prems have inwin: "\<forall>t\<in>set (calls s). now - t < 60000" by simp
  show ?case
  proof (cases "length (calls s) < maxCallsPerMinute s")
    case True
    let ?s1 = "s\<lparr>calls := calls s @ [now]\<rparr>"
    have step: "canForward now s = (True, ?s1)"
      using inwin True by (rule canForward_admit)
    have "\<forall>t\<in>set (calls ?s1) \<union> set ts. \<forall>t'\<in>set ts. t' - t < 60000"
      using Cons.prems by simp
    from Cons.IH [OF this] have run:
      "canForward_all ts ?s1 =
        (replicate (min (length ts) (maxCallsPerMinute s - Suc (length (calls s)))) True @
         replicate (length ts - (maxCallsPerMinute s - Suc (length (calls s)))) False,
         s\<lparr>calls := (calls s @ [now]) @ take (maxCallsPerMinute s - Suc (length (calls s))) ts,
           throttledCount :=
             throttledCount s + (length ts - (maxCallsPerMinute s - Suc (length (calls s))))\<rparr>)"
      by simp
    from True obtain d where d: "maxCallsPerMinute s - length (calls s) = Suc d"
      and d': "maxCallsPerMinute s - Suc (length (calls s)) = d"
      by (cases "maxCallsPerMinute s - length (calls s)") auto
    show ?thesis
      by (simp add: step run [unfolded d'] d)
  next
    case False
    let ?s1 = "s\<lparr>throttledCount := throttledCount s + 1\<rparr>"
    have step: "canForward now s = (False, ?s1)"
      using inwin False by (rule canForward_reject)
    have "\<forall>t\<in>set (calls ?s1) \<union> set ts. \<forall>t'\<in>set ts. t' - t < 60000"
      using Cons.prems by simp
    from Cons.IH [OF this] False show ?thesis
      by (simp add: step replicate_app_Cons_same)
  qed
qed

lemma length_filter_mono:
  "(\<And>a. a \<in> set xs \<Longrightarrow> P a \<Longrightarrow> Q a) \<Longrightarrow> length (filter P xs) \<le> length (filter Q xs)"
proof (induction xs)
  case Nil
  show ?case by simp
next
  case (Cons x xs)
  then show ?case by (auto simp: le_SucI)
qed

lemma filter_same_length:
  "length (filter P xs) = length xs \<Longrightarrow> filter P xs = xs"
proof (induction xs)
  case Nil
  show ?case by simp
next
  case (Cons x xs)
  show ?case
  proof (cases "P x")
    case True
    with Cons show ?thesis by simp
  next
    case False
    have "length (filter P xs) \<le> length xs" by (rule length_filter_le)
    with Cons.prems False show ?thesis by simp
  qed
qed

lemma count_list_filter:
  "count_list (filter P xs) t = (if P t then count_list xs t else 0)"
  by (induction xs) auto

lemma admitted_Cons [simp]:
  "admitted (t # ts) (ok # oks) = (if ok then t # admitted ts oks else admitted ts oks)"
  by (simp add: admitted_def)

lemma admitted_Nil [simp]: "admitted [] oks = []"
  by (simp add: admitted_def)

lemma prune_again:
  "m \<le> x \<Longrightarrow>
   filter (\<lambda>a. x - 60000 < a) (filter (\<lambda>a. m - 60000 < a) H) = filter (\<lambda>a. x - 60000 < a) H"
  for m x :: int
  by (induction H) auto

text \<open>
  The window invariant, for a run that continues a history \<open>H\<close> of admitted clock values:
  the \<^verbatim>\<open>Throttler\<close> retains the part of \<open>H\<close> less than a minute before the last clock
  value \<open>m\<close>, and no window over \<open>H\<close> holds more than the limit. Then no window over the
  history extended by the run does.
\<close>

lemma window_invariant:
  assumes "calls s = filter (\<lambda>a. m - 60000 < a) H"
    and "\<forall>a\<in>set H. a \<le> m"
    and "\<forall>t\<in>set ts. m \<le> t"
    and "sorted ts"
    and "length (calls s) \<le> maxCallsPerMinute s"
    and "\<forall>t. length (filter (\<lambda>a. t - 60000 < a \<and> a \<le> t) H) \<le> maxCallsPerMinute s"
  shows "length (filter (\<lambda>a. t - 60000 < a \<and> a \<le> t)
           (H @ admitted ts (fst (canForward_all ts s)))) \<le> maxCallsPerMinute s"
  using assms
proof (induction ts arbitrary: s H m)
  case Nil
  then show ?case by simp
next
  case (Cons x ts)
  let ?F = "filter (\<lambda>a. x - 60000 < a) H"
  let ?c = "maxCallsPerMinute s"
  from Cons.prems(3) have mx: "m \<le> x" by simp
  have F: "filter (\<lambda>timestamp. timestamp > x - 60000) (calls s) = ?F"
    unfolding Cons.prems(1) using mx by (rule prune_again)
  have later: "\<forall>t\<in>set ts. x \<le> t" using Cons.prems(4) by simp
  have sorted: "sorted ts" using Cons.prems(4) by simp
  have Fle: "length ?F \<le> ?c"
  proof -
    have "length ?F \<le> length (calls s)"
      unfolding F [symmetric] by (rule length_filter_le)
    with Cons.prems(5) show ?thesis by simp
  qed
  show ?case
  proof (cases "length ?F < ?c")
    case True
    let ?s1 = "s\<lparr>calls := ?F @ [x]\<rparr>"
    have step: "canForward x s = (True, ?s1)"
      using True by (simp add: canForward_def Let_def F)
    have 1: "calls ?s1 = filter (\<lambda>a. x - 60000 < a) (H @ [x])" by simp
    have 2: "\<forall>a\<in>set (H @ [x]). a \<le> x" using Cons.prems(2) mx by auto
    have 5: "length (calls ?s1) \<le> maxCallsPerMinute ?s1" using True by simp
    have 6: "\<forall>u. length (filter (\<lambda>a. u - 60000 < a \<and> a \<le> u) (H @ [x])) \<le> maxCallsPerMinute ?s1"
    proof
      fix u
      show "length (filter (\<lambda>a. u - 60000 < a \<and> a \<le> u) (H @ [x])) \<le> maxCallsPerMinute ?s1"
      proof (cases "x \<le> u")
        case True
        have "length (filter (\<lambda>a. u - 60000 < a \<and> a \<le> u) (H @ [x]))
                \<le> length (filter (\<lambda>a. x - 60000 < a) (H @ [x]))"
          using True by (intro length_filter_mono) auto
        also have "\<dots> \<le> maxCallsPerMinute ?s1" using 5 by simp
        finally show ?thesis .
      next
        case False
        then show ?thesis using Cons.prems(6) by simp
      qed
    qed
    from Cons.IH [OF 1 2 later sorted 5 6]
    show ?thesis by (simp add: step split_beta)
  next
    case False
    let ?s1 = "s\<lparr>calls := ?F, throttledCount := throttledCount s + 1\<rparr>"
    have step: "canForward x s = (False, ?s1)"
      using False by (simp add: canForward_def Let_def F)
    have 1: "calls ?s1 = filter (\<lambda>a. x - 60000 < a) H" by simp
    have 2: "\<forall>a\<in>set H. a \<le> x" using Cons.prems(2) mx by auto
    have 5: "length (calls ?s1) \<le> maxCallsPerMinute ?s1" using Fle by simp
    have 6: "\<forall>u. length (filter (\<lambda>a. u - 60000 < a \<and> a \<le> u) H) \<le> maxCallsPerMinute ?s1"
      using Cons.prems(6) by simp
    from Cons.IH [OF 1 2 later sorted 5 6]
    show ?thesis by (simp add: step split_beta)
  qed
qed

lemma window_bounded_from_empty:
  assumes "sorted ts"
  shows "length (filter (\<lambda>a. t - 60000 < a \<and> a \<le> t)
           (admitted ts (fst (canForward_all ts
              \<lparr>calls = [], maxCallsPerMinute = c, throttledCount = n\<rparr>)))) \<le> c"
proof (cases ts)
  case Nil
  then show ?thesis by simp
next
  case (Cons x xs)
  let ?s = "\<lparr>calls = [], maxCallsPerMinute = c, throttledCount = n\<rparr>"
  have "length (filter (\<lambda>a. t - 60000 < a \<and> a \<le> t)
           ([] @ admitted ts (fst (canForward_all ts ?s)))) \<le> maxCallsPerMinute ?s"
  proof (rule window_invariant [where m = x])
    show "\<forall>t\<in>set ts. x \<le> t" using assms Cons by auto
  qed (use assms in simp_all)
  then show ?thesis by simp
qed

subsection \<open>A burst of calls within one window\<close>

text \<open>
  Claim C1. Take any limit \<open>c\<close> and any \<open>N\<close>, a counter without retained timestamps and
  \<open>c + N\<close> calls whose clock values all lie within one window of 60 seconds, that is,
  none is 60000 ms or more after another; the calls may come in any order of their clock
  values. Then the first \<open>c\<close> calls return true and the \<open>N\<close> calls after them return
  false: exactly \<open>c\<close> admissions and exactly \<open>N\<close> rejections, and the \<^verbatim>\<open>Throttler\<close>
  ends with \<^verbatim>\<open>throttledCount\<close> equal to \<open>N\<close>. The \<^verbatim>\<open>RateLimiter\<close>, which keeps no
  such count, returns the same results.
\<close>

theorem burst_admits_exactly_capacity:
  assumes "\<forall>t\<in>set ts. \<forall>t'\<in>set ts. t' - t < 60000"
    and "length ts = c + N"
  shows "fst (canForward_all ts \<lparr>calls = [], maxCallsPerMinute = c, throttledCount = 0\<rparr>)
           = replicate c True @ replicate N False \<and>
         length (filter (\<lambda>ok. ok)
           (fst (canForward_all ts \<lparr>calls = [], maxCallsPerMinute = c, throttledCount = 0\<rparr>))) = c \<and>
         length (filter (\<lambda>ok. \<not> ok)
           (fst (canForward_all ts \<lparr>calls = [], maxCallsPerMinute = c, throttledCount = 0\<rparr>))) = N \<and>
         throttledCount
           (snd (canForward_all ts \<lparr>calls = [], maxCallsPerMinute = c, throttledCount = 0\<rparr>)) = N \<and>
         fst (isAllowed_all ts \<lparr>rl_calls = [], rl_maxCallsPerMinute = c\<rparr>)
           = replicate c True @ replicate N False"
proof -
  let ?s = "\<lparr>calls = [], maxCallsPerMinute = c, throttledCount = 0\<rparr>"
  let ?r = "\<lparr>rl_calls = [], rl_maxCallsPerMinute = c\<rparr>"
  have "\<forall>t\<in>set (calls ?s) \<union> set ts. \<forall>t'\<in>set ts. t' - t < 60000"
    using assms(1) by simp
  from canForward_all_burst [OF this] assms(2)
  have run: "canForward_all ts ?s =
      (replicate c True @ replicate N False,
       \<lparr>calls = take c ts, maxCallsPerMinute = c, throttledCount = N\<rparr>)"
    by simp
  have same: "fst (isAllowed_all ts ?r) = fst (canForward_all ts ?s)"
    using isAllowed_all_canForward_all [of ts ?r 0] by (simp add: as_Throttler_def)
  show ?thesis by (simp add: same run)
qed

theorem burst_admits_exactly_capacity_witness:
  "length [0, 10, 59999 :: int] = 2 + 1 \<and>
   fst (canForward_all [0, 10, 59999] \<lparr>calls = [], maxCallsPerMinute = 2, throttledCount = 0\<rparr>)
     = [True, True, False] \<and>
   throttledCount
     (snd (canForward_all [0, 10, 59999] \<lparr>calls = [], maxCallsPerMinute = 2, throttledCount = 0\<rparr>))
     = 1 \<and>
   fst (isAllowed_all [0, 10, 59999] \<lparr>rl_calls = [], rl_maxCallsPerMinute = 2\<rparr>)
     = [True, True, False]"
proof -
  have h1: "\<forall>t\<in>set [0, 10, 59999 :: int]. \<forall>t'\<in>set [0, 10, 59999]. t' - t < 60000"
    by simp
  have h2: "length [0, 10, 59999 :: int] = 2 + 1"
    by simp
  from burst_admits_exactly_capacity [OF h1 h2] show ?thesis
    by (simp add: numeral_2_eq_2)
qed

subsection \<open>No window holds more admissions than the limit\<close>

text \<open>
  Claim C2. The window that ends at \<open>t\<close> is the one the code prunes to: the clock values
  \<open>a\<close> with \<open>t - 60000 < a\<close> and \<open>a \<le> t\<close>. First, right after any call that returns
  true, in any state, the retained timestamps within the window that ends at the call's
  clock value are no more than the limit. Second, for calls with non-decreasing clock
  values on a counter that starts without timestamps, the admitted calls whose clock
  values lie in the window that ends at \<open>t\<close> are no more than the limit, whatever \<open>t\<close> is.
  Both hold of the \<^verbatim>\<open>Throttler\<close> and of the \<^verbatim>\<open>RateLimiter\<close>.
\<close>

theorem admissions_per_window_bounded:
  "(fst (canForward now s) \<longrightarrow>
      length (filter (\<lambda>a. now - 60000 < a) (calls (snd (canForward now s))))
        \<le> maxCallsPerMinute s) \<and>
   (sorted ts \<longrightarrow>
      length (filter (\<lambda>a. t - 60000 < a \<and> a \<le> t)
        (admitted ts (fst (canForward_all ts
           \<lparr>calls = [], maxCallsPerMinute = c, throttledCount = 0\<rparr>)))) \<le> c) \<and>
   (fst (isAllowed now r) \<longrightarrow>
      length (filter (\<lambda>a. now - 60000 < a) (rl_calls (snd (isAllowed now r))))
        \<le> rl_maxCallsPerMinute r) \<and>
   (sorted ts \<longrightarrow>
      length (filter (\<lambda>a. t - 60000 < a \<and> a \<le> t)
        (admitted ts (fst (isAllowed_all ts \<lparr>rl_calls = [], rl_maxCallsPerMinute = c\<rparr>)))) \<le> c)"
proof (intro conjI impI)
  assume "fst (canForward now s)"
  then show "length (filter (\<lambda>a. now - 60000 < a) (calls (snd (canForward now s))))
               \<le> maxCallsPerMinute s"
    by (auto simp: canForward_def Let_def split: if_splits)
next
  assume "fst (isAllowed now r)"
  then show "length (filter (\<lambda>a. now - 60000 < a) (rl_calls (snd (isAllowed now r))))
               \<le> rl_maxCallsPerMinute r"
    by (auto simp: isAllowed_def Let_def split: if_splits)
next
  assume "sorted ts"
  then show "length (filter (\<lambda>a. t - 60000 < a \<and> a \<le> t)
        (admitted ts (fst (canForward_all ts
           \<lparr>calls = [], maxCallsPerMinute = c, throttledCount = 0\<rparr>)))) \<le> c"
    by (rule window_bounded_from_empty)
next
  assume "sorted ts"
  then have "length (filter (\<lambda>a. t - 60000 < a \<and> a \<le> t)
        (admitted ts (fst (canForward_all ts
           \<lparr>calls = [], maxCallsPerMinute = c, throttledCount = 0\<rparr>)))) \<le> c"
    by (rule window_bounded_from_empty)
  moreover have "fst (isAllowed_all ts \<lparr>rl_calls = [], rl_maxCallsPerMinute = c\<rparr>)
      = fst (canForward_all ts \<lparr>calls = [], maxCallsPerMinute = c, throttledCount = 0\<rparr>)"
    using isAllowed_all_canForward_all [of ts "\<lparr>rl_calls = [], rl_maxCallsPerMinute = c\<rparr>" 0]
    by (simp add: as_Throttler_def)
  ultimately show "length (filter (\<lambda>a. t - 60000 < a \<and> a \<le> t)
        (admitted ts (fst (isAllowed_all ts \<lparr>rl_calls = [], rl_maxCallsPerMinute = c\<rparr>)))) \<le> c"
    by simp
qed

theorem admissions_per_window_bounded_witness:
  "fst (canForward 5 \<lparr>calls = [0], maxCallsPerMinute = 2, throttledCount = 0\<rparr>) \<and>
   length (filter (\<lambda>a. 5 - 60000 < a)
     (calls (snd (canForward 5 \<lparr>calls = [0], maxCallsPerMinute = 2, throttledCount = 0\<rparr>)))) \<le> 2 \<and>
   sorted [0, 1, 60000, 60001 :: int] \<and>
   length (filter (\<lambda>a. 60001 - 60000 < a \<and> a \<le> 60001)
     (admitted [0, 1, 60000, 60001] (fst (canForward_all [0, 1, 60000, 60001]
        \<lparr>calls = [], maxCallsPerMinute = 2, throttledCount = 0\<rparr>)))) \<le> 2 \<and>
   fst (isAllowed 5 \<lparr>rl_calls = [0], rl_maxCallsPerMinute = 2\<rparr>) \<and>
   length (filter (\<lambda>a. 5 - 60000 < a)
     (rl_calls (snd (isAllowed 5 \<lparr>rl_calls = [0], rl_maxCallsPerMinute = 2\<rparr>)))) \<le> 2 \<and>
   length (filter (\<lambda>a. 60001 - 60000 < a \<and> a \<le> 60001)
     (admitted [0, 1, 60000, 60001] (fst (isAllowed_all [0, 1, 60000, 60001]
        \<lparr>rl_calls = [], rl_maxCallsPerMinute = 2\<rparr>)))) \<le> 2"
proof -
  have h1: "fst (canForward 5 \<lparr>calls = [0], maxCallsPerMinute = 2, throttledCount = 0\<rparr>)"
    by (simp add: canForward_def)
  have h2: "sorted [0, 1, 60000, 60001 :: int]"
    by simp
  have h3: "fst (isAllowed 5 \<lparr>rl_calls = [0], rl_maxCallsPerMinute = 2\<rparr>)"
    by (simp add: isAllowed_def)
  from h1 h2 h3
    admissions_per_window_bounded [of 5 "\<lparr>calls = [0], maxCallsPerMinute = 2, throttledCount = 0\<rparr>"
      "[0, 1, 60000, 60001]" 60001 2 "\<lparr>rl_calls = [0], rl_maxCallsPerMinute = 2\<rparr>"]
  show ?thesis by simp
qed

subsection \<open>What one call does\<close>

text \<open>
  Claim C3, as the specification has it, keeps a timestamp that equals the boundary
  \<open>now - 60000\<close>. The code keeps a timestamp only when it is greater than the boundary:
  the call at clock value 60000 on a \<^verbatim>\<open>Throttler\<close> or \<^verbatim>\<open>RateLimiter\<close> that retains
  the timestamp 0 drops it. And a rejected \<open>isAllowed\<close> has no count to increment: on a
  full \<^verbatim>\<open>RateLimiter\<close> it returns the object as it was.
\<close>

theorem boundary_timestamp_is_discarded:
  "canForward 0 new_Throttler =
     (True, \<lparr>calls = [0], maxCallsPerMinute = 4096, throttledCount = 0\<rparr>) \<and>
   canForward 60000 \<lparr>calls = [0], maxCallsPerMinute = 4096, throttledCount = 0\<rparr> =
     (True, \<lparr>calls = [60000], maxCallsPerMinute = 4096, throttledCount = 0\<rparr>) \<and>
   isAllowed 60000 \<lparr>rl_calls = [0], rl_maxCallsPerMinute = 512\<rparr> =
     (True, \<lparr>rl_calls = [60000], rl_maxCallsPerMinute = 512\<rparr>) \<and>
   isAllowed 1 \<lparr>rl_calls = replicate 512 0, rl_maxCallsPerMinute = 512\<rparr> =
     (False, \<lparr>rl_calls = replicate 512 0, rl_maxCallsPerMinute = 512\<rparr>)"
  by (simp add: canForward_def isAllowed_def new_Throttler_def)

text \<open>
  Claim C3, amended. For every state and every clock value \<open>now\<close>, the call discards
  exactly the retained timestamps \<open>t\<close> with \<open>t \<le> now - 60000\<close> and keeps the others in
  their order. If fewer are left than the limit, it appends \<open>now\<close> and returns true and
  changes nothing else. Otherwise it returns false; \<open>canForward\<close> then adds one to
  \<^verbatim>\<open>throttledCount\<close>, and \<open>isAllowed\<close>, which has no such count, does nothing more.
  Counted by value: after the call a clock value at or before the boundary occurs no
  more among the timestamps, and any other as often as before, \<open>now\<close> once more when the
  call returned true.
\<close>

theorem canForward_effect:
  "canForward now s =
     (if length (filter (\<lambda>t. \<not> t \<le> now - 60000) (calls s)) < maxCallsPerMinute s
      then (True, s\<lparr>calls := filter (\<lambda>t. \<not> t \<le> now - 60000) (calls s) @ [now]\<rparr>)
      else (False, s\<lparr>calls := filter (\<lambda>t. \<not> t \<le> now - 60000) (calls s),
                     throttledCount := throttledCount s + 1\<rparr>)) \<and>
   isAllowed now r =
     (if length (filter (\<lambda>t. \<not> t \<le> now - 60000) (rl_calls r)) < rl_maxCallsPerMinute r
      then (True, r\<lparr>rl_calls := filter (\<lambda>t. \<not> t \<le> now - 60000) (rl_calls r) @ [now]\<rparr>)
      else (False, r\<lparr>rl_calls := filter (\<lambda>t. \<not> t \<le> now - 60000) (rl_calls r)\<rparr>)) \<and>
   count_list (calls (snd (canForward now s))) t =
     (if t \<le> now - 60000 then 0 else count_list (calls s) t) +
     (if fst (canForward now s) \<and> t = now then 1 else 0) \<and>
   count_list (rl_calls (snd (isAllowed now r))) t =
     (if t \<le> now - 60000 then 0 else count_list (rl_calls r) t) +
     (if fst (isAllowed now r) \<and> t = now then 1 else 0)"
proof -
  have newer: "(\<lambda>timestamp. timestamp > now - 60000) = (\<lambda>t. \<not> t \<le> now - 60000)"
    by (simp add: fun_eq_iff not_le)
  have kept: "count_list (filter (\<lambda>t. \<not> t \<le> now - 60000) xs) u =
      (if u \<le> now - 60000 then 0 else count_list xs u)" for xs u
    by (simp add: count_list_filter)
  have effect: "canForward now s =
     (if length (filter (\<lambda>t. \<not> t \<le> now - 60000) (calls s)) < maxCallsPerMinute s
      then (True, s\<lparr>calls := filter (\<lambda>t. \<not> t \<le> now - 60000) (calls s) @ [now]\<rparr>)
      else (False, s\<lparr>calls := filter (\<lambda>t. \<not> t \<le> now - 60000) (calls s),
                     throttledCount := throttledCount s + 1\<rparr>))"
    by (simp add: canForward_def Let_def newer)
  have rl_effect: "isAllowed now r =
     (if length (filter (\<lambda>t. \<not> t \<le> now - 60000) (rl_calls r)) < rl_maxCallsPerMinute r
      then (True, r\<lparr>rl_calls := filter (\<lambda>t. \<not> t \<le> now - 60000) (rl_calls r) @ [now]\<rparr>)
      else (False, r\<lparr>rl_calls := filter (\<lambda>t. \<not> t \<le> now - 60000) (rl_calls r)\<rparr>))"
    by (simp add: isAllowed_def Let_def newer)
  have counts: "count_list (calls (snd (canForward now s))) t =
     (if t \<le> now - 60000 then 0 else count_list (calls s) t) +
     (if fst (canForward now s) \<and> t = now then 1 else 0)"
    unfolding effect by (simp add: kept)
  have rl_counts: "count_list (rl_calls (snd (isAllowed now r))) t =
     (if t \<le> now - 60000 then 0 else count_list (rl_calls r) t) +
     (if fst (isAllowed now r) \<and> t = now then 1 else 0)"
    unfolding rl_effect by (simp add: kept)
  from effect rl_effect counts rl_counts show ?thesis by blast
qed

subsection \<open>A rejected call\<close>

text \<open>
  Claim C7. When \<open>canForward\<close> returns false, the retained timestamps within the window
  that ends at the call's clock value are the same list before and after, the limit is
  the same, and \<^verbatim>\<open>throttledCount\<close> is one more. Where the \<^verbatim>\<open>Throttler\<close> retains no more
  timestamps than its limit, nothing was there to prune either, and the object after the
  call is the object before it with \<^verbatim>\<open>throttledCount\<close> one more. Every \<^verbatim>\<open>Throttler\<close>
  reached from one without timestamps by \<open>canForward\<close> calls retains no more than its
  limit. A rejected \<open>isAllowed\<close> likewise leaves the timestamps in the window as they
  were, and a \<^verbatim>\<open>RateLimiter\<close> within its limit wholly unchanged.
\<close>

theorem rejection_changes_only_throttledCount:
  "(\<not> fst (canForward now s) \<longrightarrow>
      filter (\<lambda>a. now - 60000 < a) (calls (snd (canForward now s)))
        = filter (\<lambda>a. now - 60000 < a) (calls s) \<and>
      throttledCount (snd (canForward now s)) = throttledCount s + 1 \<and>
      maxCallsPerMinute (snd (canForward now s)) = maxCallsPerMinute s \<and>
      (length (calls s) \<le> maxCallsPerMinute s \<longrightarrow>
         snd (canForward now s) = s\<lparr>throttledCount := throttledCount s + 1\<rparr>)) \<and>
   length (calls (snd (canForward_all ts \<lparr>calls = [], maxCallsPerMinute = c, throttledCount = n\<rparr>)))
     \<le> c \<and>
   (\<not> fst (isAllowed now r) \<longrightarrow>
      filter (\<lambda>a. now - 60000 < a) (rl_calls (snd (isAllowed now r)))
        = filter (\<lambda>a. now - 60000 < a) (rl_calls r) \<and>
      (length (rl_calls r) \<le> rl_maxCallsPerMinute r \<longrightarrow> snd (isAllowed now r) = r))"
proof (intro conjI impI)
  let ?F = "filter (\<lambda>timestamp. timestamp > now - 60000) (calls s)"
  {
    assume rej: "\<not> fst (canForward now s)"
    then have full: "\<not> length ?F < maxCallsPerMinute s"
      by (auto simp: canForward_def Let_def split: if_splits)
    then have after: "snd (canForward now s) = s\<lparr>calls := ?F, throttledCount := throttledCount s + 1\<rparr>"
      by (simp add: canForward_def Let_def)
    show "filter (\<lambda>a. now - 60000 < a) (calls (snd (canForward now s)))
            = filter (\<lambda>a. now - 60000 < a) (calls s)"
      by (simp add: after)
    show "throttledCount (snd (canForward now s)) = throttledCount s + 1"
      by (simp add: after)
    show "maxCallsPerMinute (snd (canForward now s)) = maxCallsPerMinute s"
      by simp
    {
      assume "length (calls s) \<le> maxCallsPerMinute s"
      with full have "length ?F = length (calls s)"
        using length_filter_le [of "\<lambda>timestamp. timestamp > now - 60000" "calls s"] by linarith
      then have "?F = calls s"
        by (rule filter_same_length)
      then show "snd (canForward now s) = s\<lparr>throttledCount := throttledCount s + 1\<rparr>"
        by (simp add: after)
    }
  }
  show "length (calls (snd (canForward_all ts \<lparr>calls = [], maxCallsPerMinute = c, throttledCount = n\<rparr>)))
          \<le> c"
    using canForward_all_bounded [of "\<lparr>calls = [], maxCallsPerMinute = c, throttledCount = n\<rparr>" ts]
    by simp
  let ?G = "filter (\<lambda>timestamp. timestamp > now - 60000) (rl_calls r)"
  {
    assume rej: "\<not> fst (isAllowed now r)"
    then have full: "\<not> length ?G < rl_maxCallsPerMinute r"
      by (auto simp: isAllowed_def Let_def split: if_splits)
    then have after: "snd (isAllowed now r) = r\<lparr>rl_calls := ?G\<rparr>"
      by (simp add: isAllowed_def Let_def)
    show "filter (\<lambda>a. now - 60000 < a) (rl_calls (snd (isAllowed now r)))
            = filter (\<lambda>a. now - 60000 < a) (rl_calls r)"
      by (simp add: after)
    {
      assume "length (rl_calls r) \<le> rl_maxCallsPerMinute r"
      with full have "length ?G = length (rl_calls r)"
        using length_filter_le [of "\<lambda>timestamp. timestamp > now - 60000" "rl_calls r"] by linarith
      then have "?G = rl_calls r"
        by (rule filter_same_length)
      then show "snd (isAllowed now r) = r"
        by (simp add: after)
    }
  }
qed

theorem rejection_changes_only_throttledCount_witness:
  "\<not> fst (canForward 5 \<lparr>calls = [0], maxCallsPerMinute = 1, throttledCount = 0\<rparr>) \<and>
   length (calls \<lparr>calls = [0], maxCallsPerMinute = 1, throttledCount = 0\<rparr>) \<le> 1 \<and>
   snd (canForward 5 \<lparr>calls = [0], maxCallsPerMinute = 1, throttledCount = 0\<rparr>)
     = \<lparr>calls = [0], maxCallsPerMinute = 1, throttledCount = 1\<rparr> \<and>
   \<not> fst (isAllowed 5 \<lparr>rl_calls = [0], rl_maxCallsPerMinute = 1\<rparr>) \<and>
   snd (isAllowed 5 \<lparr>rl_calls = [0], rl_maxCallsPerMinute = 1\<rparr>)
     = \<lparr>rl_calls = [0], rl_maxCallsPerMinute = 1\<rparr>"
proof -
  have h1: "\<not> fst (canForward 5 \<lparr>calls = [0], maxCallsPerMinute = 1, throttledCount = 0\<rparr>)"
    by (simp add: canForward_def)
  have h2: "\<not> fst (isAllowed 5 \<lparr>rl_calls = [0], rl_maxCallsPerMinute = 1\<rparr>)"
    by (simp add: isAllowed_def)
  from h1 h2
    rejection_changes_only_throttledCount
      [of 5 "\<lparr>calls = [0], maxCallsPerMinute = 1, throttledCount = 0\<rparr>" "[]" 1 0
          "\<lparr>rl_calls = [0], rl_maxCallsPerMinute = 1\<rparr>"]
  show ?thesis by simp
qed

subsection \<open>Remaining capacity\<close>

text \<open>
  Claim C10. On a counter reached from one without timestamps by any sequence of calls,
  monotone or not, and for any clock value \<open>now\<close>, in particular one at or after the last
  call, \<open>getRemainingCapacity\<close> returns the limit minus what \<open>getCurrentCount\<close> returns,
  and the difference is not negative, so \<^verbatim>\<open>Math.max\<close> returns its second argument.
\<close>

theorem remaining_capacity_is_limit_minus_count:
  "fst (getRemainingCapacity now
         (snd (canForward_all ts \<lparr>calls = [], maxCallsPerMinute = c, throttledCount = 0\<rparr>)))
     = int c - int (fst (getCurrentCount now
         (snd (canForward_all ts \<lparr>calls = [], maxCallsPerMinute = c, throttledCount = 0\<rparr>)))) \<and>
   0 \<le> int c - int (fst (getCurrentCount now
         (snd (canForward_all ts \<lparr>calls = [], maxCallsPerMinute = c, throttledCount = 0\<rparr>)))) \<and>
   fst (rl_getRemainingCapacity now
         (snd (isAllowed_all ts \<lparr>rl_calls = [], rl_maxCallsPerMinute = c\<rparr>)))
     = int c - int (fst (rl_getCurrentCount now
         (snd (isAllowed_all ts \<lparr>rl_calls = [], rl_maxCallsPerMinute = c\<rparr>)))) \<and>
   0 \<le> int c - int (fst (rl_getCurrentCount now
         (snd (isAllowed_all ts \<lparr>rl_calls = [], rl_maxCallsPerMinute = c\<rparr>))))"
proof -
  let ?start = "\<lparr>calls = [], maxCallsPerMinute = c, throttledCount = 0\<rparr>"
  let ?rstart = "\<lparr>rl_calls = [], rl_maxCallsPerMinute = c\<rparr>"
  let ?s = "snd (canForward_all ts ?start)"
  let ?r = "snd (isAllowed_all ts ?rstart)"
  have bound: "length (calls ?s) \<le> c"
    using canForward_all_bounded [of ?start ts] by simp
  have lim: "maxCallsPerMinute ?s = c" by simp
  have "length (filter (\<lambda>timestamp. timestamp > now - 60000) (calls ?s)) \<le> length (calls ?s)"
    by (rule length_filter_le)
  from this bound
  have "length (filter (\<lambda>timestamp. timestamp > now - 60000) (calls ?s)) \<le> c"
    by (rule le_trans)
  then have count: "fst (getCurrentCount now ?s) \<le> c"
    by (simp add: getCurrentCount_def Let_def)
  have rem: "fst (getRemainingCapacity now ?s) = max 0 (int c - int (fst (getCurrentCount now ?s)))"
    using lim by (simp add: getRemainingCapacity_def getCurrentCount_def Let_def)
  have same: "rl_calls ?r = calls ?s" "rl_maxCallsPerMinute ?r = c"
    using isAllowed_all_canForward_all [of ts ?rstart 0] by (simp_all add: as_Throttler_def)
  have rl_count: "fst (rl_getCurrentCount now ?r) = fst (getCurrentCount now ?s)"
    by (simp add: rl_getCurrentCount_def getCurrentCount_def Let_def same)
  have rl_rem: "fst (rl_getRemainingCapacity now ?r)
      = max 0 (int c - int (fst (rl_getCurrentCount now ?r)))"
    by (simp add: rl_getRemainingCapacity_def rl_getCurrentCount_def Let_def same)
  from count show ?thesis
    unfolding rem rl_rem rl_count by simp
qed

section \<open>Properties of the handlers\<close>

lemma rl_prune_then_isAllowed:
  assumes "t \<le> now"
  shows "isAllowed now (snd (rl_getCurrentCount t r)) = isAllowed now r"
proof -
  have "filter (\<lambda>timestamp. timestamp > now - 60000)
          (filter (\<lambda>timestamp. timestamp > t - 60000) (rl_calls r))
        = filter (\<lambda>timestamp. timestamp > now - 60000) (rl_calls r)"
    using assms by (rule prune_again)
  then show ?thesis
    by (simp add: isAllowed_def rl_getCurrentCount_def Let_def)
qed

lemma rl_getRemainingCapacity_state:
  "snd (rl_getRemainingCapacity t r) = snd (rl_getCurrentCount t r)"
  by (simp add: rl_getRemainingCapacity_def split_beta)

subsection \<open>\<^verbatim>\<open>POST /echo\<close>\<close>

text \<open>
  Claim C8. The counter of the echo service decides by \<open>isAllowed\<close>, called after the two
  accessors that the handler calls for its log line. When it admits, the response is 200
  with the received body as it came; when it rejects, the response is 429 with the body
  \<^verbatim>\<open>{message: "Exceeding Limit"}\<close>. The object is left as \<open>isAllowed\<close> left it. The two
  accessors only prune: when the clock has not gone backwards between them and
  \<open>isAllowed\<close>, the decision and the final object are those of \<open>isAllowed\<close> on the
  \<^verbatim>\<open>RateLimiter\<close> the request found.
\<close>

theorem echo_response:
  "fst (fst (echo t1 t2 t3 receivedData r)) =
     (if fst (isAllowed t3 (snd (rl_getRemainingCapacity t2 (snd (rl_getCurrentCount t1 r)))))
      then \<lparr>status = 200, body = receivedData\<rparr>
      else \<lparr>status = 429, body = JObj [(''message'', JStr ''Exceeding Limit'')]\<rparr>) \<and>
   snd (echo t1 t2 t3 receivedData r) =
     snd (isAllowed t3 (snd (rl_getRemainingCapacity t2 (snd (rl_getCurrentCount t1 r))))) \<and>
   (t1 \<le> t3 \<and> t2 \<le> t3 \<longrightarrow>
      isAllowed t3 (snd (rl_getRemainingCapacity t2 (snd (rl_getCurrentCount t1 r))))
        = isAllowed t3 r)"
proof (intro conjI impI)
  show "fst (fst (echo t1 t2 t3 receivedData r)) =
     (if fst (isAllowed t3 (snd (rl_getRemainingCapacity t2 (snd (rl_getCurrentCount t1 r)))))
      then \<lparr>status = 200, body = receivedData\<rparr>
      else \<lparr>status = 429, body = JObj [(''message'', JStr ''Exceeding Limit'')]\<rparr>)"
    by (simp add: echo_def split_beta Let_def)
  show "snd (echo t1 t2 t3 receivedData r) =
     snd (isAllowed t3 (snd (rl_getRemainingCapacity t2 (snd (rl_getCurrentCount t1 r)))))"
    by (simp add: echo_def split_beta Let_def)
next
  assume "t1 \<le> t3 \<and> t2 \<le> t3"
  then have "t1 \<le> t3" and "t2 \<le> t3" by simp_all
  have "isAllowed t3 (snd (rl_getRemainingCapacity t2 (snd (rl_getCurrentCount t1 r))))
      = isAllowed t3 (snd (rl_getCurrentCount t1 r))"
    unfolding rl_getRemainingCapacity_state using \<open>t2 \<le> t3\<close> by (rule rl_prune_then_isAllowed)
  also have "\<dots> = isAllowed t3 r"
    using \<open>t1 \<le> t3\<close> by (rule rl_prune_then_isAllowed)
  finally show "isAllowed t3 (snd (rl_getRemainingCapacity t2 (snd (rl_getCurrentCount t1 r))))
      = isAllowed t3 r" .
qed

theorem echo_response_witness:
  "(1::int) \<le> 2 \<and> (2::int) \<le> 2 \<and>
   fst (fst (echo 1 2 2 (JObj [(''id'', JNum 7), (''data'', JStr ''7'')]) new_RateLimiter))
     = \<lparr>status = 200, body = JObj [(''id'', JNum 7), (''data'', JStr ''7'')]\<rparr> \<and>
   fst (fst (echo 1 2 2 (JObj [(''id'', JNum 7), (''data'', JStr ''7'')])
               \<lparr>rl_calls = [0], rl_maxCallsPerMinute = 1\<rparr>))
     = \<lparr>status = 429, body = JObj [(''message'', JStr ''Exceeding Limit'')]\<rparr>"
proof -
  have h: "(1::int) \<le> 2 \<and> (2::int) \<le> 2" by simp
  have a: "isAllowed 2 new_RateLimiter = (True, \<lparr>rl_calls = [2], rl_maxCallsPerMinute = 512\<rparr>)"
    by (simp add: isAllowed_def new_RateLimiter_def)
  have b: "isAllowed 2 \<lparr>rl_calls = [0], rl_maxCallsPerMinute = 1\<rparr>
             = (False, \<lparr>rl_calls = [0], rl_maxCallsPerMinute = 1\<rparr>)"
    by (simp add: isAllowed_def)
  from h a b
    echo_response [of 1 2 2 "JObj [(''id'', JNum 7), (''data'', JStr ''7'')]" new_RateLimiter]
    echo_response [of 1 2 2 "JObj [(''id'', JNum 7), (''data'', JStr ''7'')]"
                      "\<lparr>rl_calls = [0], rl_maxCallsPerMinute = 1\<rparr>"]
  show ?thesis by simp
qed

subsection \<open>\<^verbatim>\<open>GET /health\<close>\<close>

text \<open>
  Claim C9 has both services report a lifetime count of rejections. The echo service
  keeps none: its \<^verbatim>\<open>RateLimiter\<close> has no field for it, and the body of its
  \<^verbatim>\<open>/health\<close> has the six properties below. On a \<^verbatim>\<open>RateLimiter\<close> that is full, reached by
  512 calls at clock value 0, a call at 1 is rejected, and \<^verbatim>\<open>/health\<close> answers after it
  what it answers without it.
\<close>

theorem echo_health_reports_no_rejections:
  "\<not> fst (isAllowed 1 \<lparr>rl_calls = replicate 512 0, rl_maxCallsPerMinute = 512\<rparr>) \<and>
   fst (echo_health 2 3 (snd (isAllowed 1 \<lparr>rl_calls = replicate 512 0, rl_maxCallsPerMinute = 512\<rparr>)))
     = fst (echo_health 2 3 \<lparr>rl_calls = replicate 512 0, rl_maxCallsPerMinute = 512\<rparr>) \<and>
   fst (echo_health 2 3 \<lparr>rl_calls = replicate 512 0, rl_maxCallsPerMinute = 512\<rparr>)
     = \<lparr>status = 200,
        body = JObj [(''status'', JStr ''ok''),
                     (''service'', JStr ''Echo Service''),
                     (''port'', JNum 4003),
                     (''currentCalls'', JNum 512),
                     (''remainingCapacity'', JNum 0),
                     (''maxCallsPerMinute'', JNum 512)]\<rparr>"
  by (simp add: isAllowed_def echo_health_def rl_getCurrentCount_def rl_getRemainingCapacity_def)

text \<open>
  Claim C9, amended. \<^verbatim>\<open>GET /health\<close> of the throttle service returns a snapshot with the
  current windowed count (\<^verbatim>\<open>currentCalls\<close>), the remaining capacity, the lifetime
  rejected count (\<^verbatim>\<open>throttledCount\<close>) and the limit (\<^verbatim>\<open>maxCallsPerMinute\<close>, 4096).
  \<^verbatim>\<open>GET /health\<close> of the echo service returns the current windowed count, the remaining
  capacity and the limit (512), and no rejected count. Each count is read at its own
  clock value, the remaining capacity after the current count.
\<close>

theorem health_snapshots:
  "fst (throttle_health t1 t2 s)
     = \<lparr>status = 200,
        body = JObj [(''status'', JStr ''ok''),
                     (''service'', JStr ''Throttle Service''),
                     (''port'', JNum 4002),
                     (''currentCalls'', JNum (int (fst (getCurrentCount t1 s)))),
                     (''remainingCapacity'',
                        JNum (fst (getRemainingCapacity t2 (snd (getCurrentCount t1 s))))),
                     (''throttledCount'', JNum (int (throttledCount s))),
                     (''maxCallsPerMinute'', JNum 4096)]\<rparr> \<and>
   fst (echo_health t1 t2 r)
     = \<lparr>status = 200,
        body = JObj [(''status'', JStr ''ok''),
                     (''service'', JStr ''Echo Service''),
                     (''port'', JNum 4003),
                     (''currentCalls'', JNum (int (fst (rl_getCurrentCount t1 r)))),
                     (''remainingCapacity'',
                        JNum (fst (rl_getRemainingCapacity t2 (snd (rl_getCurrentCount t1 r))))),
                     (''maxCallsPerMinute'', JNum 512)]\<rparr> \<and>
   get_prop (body (fst (throttle_health t1 t2 s))) ''throttledCount''
     = Some (JNum (int (throttledCount s))) \<and>
   get_prop (body (fst (echo_health t1 t2 r))) ''throttledCount'' = None \<and>
   int (maxCallsPerMinute new_Throttler) = 4096 \<and>
   int (rl_maxCallsPerMinute new_RateLimiter) = 512"
  by (simp add: throttle_health_def echo_health_def split_beta getThrottledCount_def
      getRemainingCapacity_def getCurrentCount_def new_Throttler_def new_RateLimiter_def Let_def)

subsection \<open>\<^verbatim>\<open>POST /forward\<close>\<close>




section \<open>Properties of the caller service\<close>

declare makeCalls_loop.simps [simp del]

lemma makeCalls_loop_eq:
  "makeCalls_loop fails i count startId callPromises =
     callPromises @ map (\<lambda>k. makeCall fails (startId + int k)) [i..<count]"
proof (induction fails i count startId callPromises rule: makeCalls_loop.induct)
  case (1 fails i count startId callPromises)
  show ?case
  proof (cases "i < count")
    case True
    then have "[i..<count] = i # [i + 1..<count]"
      by (simp add: upt_conv_Cons)
    with True "1.IH" show ?thesis
      by (simp add: makeCalls_loop.simps [of fails i])
  next
    case False
    then show ?thesis
      by (simp add: makeCalls_loop.simps [of fails i])
  qed
qed

lemma upto_from_upt: "map (\<lambda>k. s + int k) [0..<n] = [s..s + int n - 1]"
proof (induction n)
  case 0
  show ?case by simp
next
  case (Suc n)
  have "[s..s + int (Suc n) - 1] = [s..s + int n - 1] @ [s + int n]"
    using upto_rec2 [of s "s + int n"] by simp
  with Suc show ?case by simp
qed

lemma makeCalls_ids: "map call_id (makeCalls fails count startId) = [startId..startId + int count - 1]"
proof -
  have "map call_id (makeCalls fails count startId) = map (\<lambda>k. startId + int k) [0..<count]"
    by (simp add: makeCalls_def makeCalls_loop_eq makeCall_def comp_def)
  then show ?thesis by (simp add: upto_from_upt)
qed

lemma makeCalls_length: "length (makeCalls fails count startId) = count"
  by (simp add: makeCalls_def makeCalls_loop_eq)

text \<open>
  Claim C6. Whatever the measured durations of the rounds and whichever calls fail, the
  four rounds of \<^verbatim>\<open>main\<close> issue 16, 256, 4096 and 65536 calls, with the IDs 1 to 16,
  17 to 272, 273 to 4368 and 4369 to 69904 in this order, 69904 calls in all, which is
  also the total that \<^verbatim>\<open>main\<close> logs and the sum of the powers of 16 from the first to the
  fourth. A call that fails is issued and recorded like one that succeeds.
\<close>

theorem driver_issues_all_rounds:
  "map (map call_id) (rounds (main fails d1 d2 d3))
     = [[1..16], [17..272], [273..4368], [4369..69904]] \<and>
   map length (rounds (main fails d1 d2 d3)) = [16, 256, 4096, 65536] \<and>
   length (concat (rounds (main fails d1 d2 d3))) = 69904 \<and>
   total (main fails d1 d2 d3) = 69904 \<and>
   (69904 :: int) = 16 ^ 1 + 16 ^ 2 + 16 ^ 3 + 16 ^ 4 \<and>
   map call_failed (concat (rounds (main fails d1 d2 d3))) = map fails [1..69904]"
proof -
  have ids: "map (map call_id) (rounds (main fails d1 d2 d3))
     = [[1..16], [17..272], [273..4368], [4369..69904]]"
    by (simp add: main_def Let_def makeCalls_ids del: upto_rec_numeral)
  have lens: "map length (rounds (main fails d1 d2 d3)) = [16, 256, 4096, 65536]"
    by (simp add: main_def Let_def makeCalls_length)
  have all: "length (concat (rounds (main fails d1 d2 d3))) = 69904"
    by (simp add: main_def Let_def makeCalls_length)
  have tot: "total (main fails d1 d2 d3) = 69904"
    by (simp add: main_def Let_def)
  have pow: "(69904 :: int) = 16 ^ 1 + 16 ^ 2 + 16 ^ 3 + 16 ^ 4"
    by simp
  have each: "map call_failed (makeCalls fails count startId) = map fails (map call_id (makeCalls fails count startId))"
    for count startId
    by (simp add: makeCalls_def makeCalls_loop_eq makeCall_def comp_def)
  have split: "[1..69904] = [1..16] @ [17..272] @ [273..4368] @ [4369..69904 :: int]"
    using upto_split2 [of 1 16 69904] upto_split2 [of 17 272 69904] upto_split2 [of 273 4368 69904]
    by (simp del: upto_rec_numeral)
  have "map call_failed (concat (rounds (main fails d1 d2 d3)))
      = map fails (concat (map (map call_id) (rounds (main fails d1 d2 d3))))"
    by (simp add: main_def Let_def each)
  also have "\<dots> = map fails [1..69904]"
    unfolding ids split by (simp del: upto_rec_numeral)
  finally have failed: "map call_failed (concat (rounds (main fails d1 d2 d3))) = map fails [1..69904]" .
  from ids lens all tot pow failed show ?thesis by blast
qed

theorem driver_issues_all_rounds_witness:
  "map length (rounds (main (\<lambda>callId. callId = 3) 61000 10 10)) = [16, 256, 4096, 65536] \<and>
   total (main (\<lambda>callId. callId = 3) 61000 10 10) = 69904 \<and>
   waits (main (\<lambda>callId. callId = 3) 61000 10 10) = [0, 59990, 59990]"
proof -
  have "waits (main (\<lambda>callId. callId = 3) 61000 10 10) = [0, 59990, 59990]"
    by (simp add: main_def Let_def)
  with driver_issues_all_rounds [of "\<lambda>callId. callId = 3" 61000 10 10]
  show ?thesis by (simp del: upto_rec_numeral)
qed

end
